theory Spec2Isabelle
  imports Main "HOL-Library.Sublist"
begin

section \<open>Python strings\<close>

text \<open>
  A Python \<open>str\<close> is a sequence of Unicode code points. A code point is modelled as a
  natural number and a string as a list of them, so that \<open>length\<close> counts what
  Python's \<open>len\<close> counts and the Cyrillic messages of the source are ordinary strings.
  \<open>ascii\<close> embeds an ASCII literal.
\<close>

type_synonym pychar = nat
type_synonym pystr = "pychar list"

definition ascii :: "string \<Rightarrow> pystr" where
  "ascii s = map of_char s"

text \<open>\<open>str.isspace\<close> for one code point: the whitespace set of CPython 3.\<close>

definition isspace :: "pychar \<Rightarrow> bool" where
  "isspace c \<longleftrightarrow>
     (9 \<le> c \<and> c \<le> 13) \<or> (28 \<le> c \<and> c \<le> 32) \<or> c = 133 \<or> c = 160 \<or> c = 5760 \<or>
     (8192 \<le> c \<and> c \<le> 8202) \<or> c = 8232 \<or> c = 8233 \<or> c = 8239 \<or> c = 8287 \<or> c = 12288"

text \<open>\<open>s.strip()\<close>: whitespace removed at both ends.\<close>

definition strip :: "pystr \<Rightarrow> pystr" where
  "strip s = rev (dropWhile isspace (rev (dropWhile isspace s)))"

text \<open>
  \<open>s.split(sep)\<close> for a separator: the occurrences of \<open>sep\<close> are found from the left
  and do not overlap, empty pieces are kept, and the result always has at least one
  piece. \<open>cur\<close> holds the current piece, reversed. Python raises \<open>ValueError\<close> for an
  empty separator; every separator of the source is a non-empty literal, and the model
  treats an empty one as never found.
\<close>

function split_sep :: "pystr \<Rightarrow> pystr \<Rightarrow> pystr \<Rightarrow> pystr list" where
  "split_sep sep cur [] = [rev cur]"
| "split_sep sep cur (c # cs) =
     (if sep \<noteq> [] \<and> prefix sep (c # cs)
      then rev cur # split_sep sep [] (drop (length sep) (c # cs))
      else split_sep sep (c # cur) cs)"
  by pat_completeness auto
termination
  by (relation "measure (\<lambda>(sep, cur, s). length s)") auto

definition split :: "pystr \<Rightarrow> pystr \<Rightarrow> pystr list" where
  "split s sep = split_sep sep [] s"

text \<open>
  \<open>s.split()\<close> without a separator: the maximal runs of non-whitespace, no empty piece.
\<close>

fun split_ws_from :: "pystr \<Rightarrow> pystr \<Rightarrow> pystr list" where
  "split_ws_from cur [] = (if cur = [] then [] else [rev cur])"
| "split_ws_from cur (c # cs) =
     (if isspace c
      then (if cur = [] then split_ws_from [] cs else rev cur # split_ws_from [] cs)
      else split_ws_from (c # cur) cs)"

definition split_ws :: "pystr \<Rightarrow> pystr list" where
  "split_ws s = split_ws_from [] s"

text \<open>\<open>sep.join(xs)\<close>.\<close>

fun join :: "pystr \<Rightarrow> pystr list \<Rightarrow> pystr" where
  "join sep [] = []"
| "join sep [x] = x"
| "join sep (x # y # ys) = x @ sep @ join sep (y # ys)"

text \<open>
  \<open>xs.index(x)\<close>: the first position of \<open>x\<close>; \<open>None\<close> stands for the \<open>ValueError\<close> of
  an absent element.
\<close>

fun index :: "'a list \<Rightarrow> 'a \<Rightarrow> nat option" where
  "index [] x = None"
| "index (y # ys) x = (if y = x then Some 0 else map_option Suc (index ys x))"

text \<open>
  \<open>s.upper()\<close> on the ASCII letters. The source calls it only on a string that has
  matched \<open>VALID_NAME_REGEX\<close>, whose characters are all ASCII.
\<close>

definition upper_char :: "pychar \<Rightarrow> pychar" where
  "upper_char c = (if 97 \<le> c \<and> c \<le> 122 then c - 32 else c)"

definition upper :: "pystr \<Rightarrow> pystr" where
  "upper s = map upper_char s"

section \<open>IdentifierValidator\<close>

definition is_name_start :: "pychar \<Rightarrow> bool" where
  "is_name_start c \<longleftrightarrow> (97 \<le> c \<and> c \<le> 122) \<or> (65 \<le> c \<and> c \<le> 90) \<or> c = 95"

definition is_name_char :: "pychar \<Rightarrow> bool" where
  "is_name_char c \<longleftrightarrow>
     (97 \<le> c \<and> c \<le> 122) \<or> (65 \<le> c \<and> c \<le> 90) \<or> (48 \<le> c \<and> c \<le> 57) \<or> c = 95"

text \<open>
  \<open>re.match(VALID_NAME_REGEX, name)\<close> with the pattern
  \<^verbatim>\<open>^[a-zA-Z_][a-zA-Z0-9_]*$\<close> and no flags: one character of the first class, then a
  run of the second class, then \<^verbatim>\<open>$\<close>. In Python \<^verbatim>\<open>$\<close> matches at the end of the
  string and also just before a newline that is the last character. The run cannot
  contain a newline, so the match succeeds exactly when what follows the longest run is
  empty or a single newline.
\<close>

fun match_valid_name :: "pystr \<Rightarrow> bool" where
  "match_valid_name [] = False"
| "match_valid_name (c # cs) =
     (is_name_start c \<and> (let rest = dropWhile is_name_char cs in rest = [] \<or> rest = [10]))"

definition SQL_RESERVED_KEYWORDS :: "pystr list" where
  "SQL_RESERVED_KEYWORDS = map ascii
     [''SELECT'', ''FROM'', ''WHERE'', ''INSERT'', ''UPDATE'', ''DELETE'', ''JOIN'', ''GROUP'',
      ''ORDER'', ''BY'', ''HAVING'', ''IN'', ''IS'', ''NULL'', ''AND'', ''OR'', ''NOT'', ''LIKE'',
      ''BETWEEN'', ''EXISTS'', ''DISTINCT'', ''CASE'', ''WHEN'', ''THEN'', ''ELSE'', ''END'']"

definition is_valid_name :: "pystr \<Rightarrow> bool" where
  "is_valid_name name \<longleftrightarrow> match_valid_name name \<and> upper name \<notin> set SQL_RESERVED_KEYWORDS"

section \<open>LineParser\<close>

record table =
  name :: pystr
  "alias" :: "pystr option"
  columns :: "pystr list"
  join_condition :: "pystr option"

text \<open>
  \<open>table_info[0]\<close> and \<open>table_name_parts[0]\<close> always exist, since \<open>split\<close> returns at
  least one piece; the model reads them with \<open>hd\<close> and \<open>split_nonempty\<close> below shows that
  the list is never empty.
\<close>

definition parse_alias :: "pystr list \<Rightarrow> pystr option" where
  "parse_alias table_name_parts =
     (case index table_name_parts (ascii ''-'') of
        None \<Rightarrow> None
      | Some alias_index \<Rightarrow>
          if length table_name_parts > alias_index + 1
          then Some (table_name_parts ! (alias_index + 1)) else None)"

definition parse_table_line :: "pystr \<Rightarrow> table" where
  "parse_table_line line =
     (let table_info = split (strip line) (ascii '' : '');
          table_name_parts = split (hd table_info) (ascii '' '');
          table_name = hd table_name_parts;
          alias = parse_alias table_name_parts;
          columns = (if length table_info > 1 \<and> table_info ! 1 \<noteq> []
                     then split_ws (table_info ! 1) else [ascii ''*'']);
          join_condition = (if length table_info > 2 then Some (strip (table_info ! 2)) else None)
      in \<lparr> name = table_name, alias = alias, columns = columns,
           join_condition = join_condition \<rparr>)"

section \<open>QueryAssembler\<close>

text \<open>The five messages of the source, as code points.\<close>

definition error_prefix :: pystr where
  "error_prefix = [1054, 1096, 1080, 1073, 1082, 1072, 58, 32]"

definition MSG_EMPTY_QUERY :: pystr where
  "MSG_EMPTY_QUERY = error_prefix @
     [1047, 1072, 1087, 1088, 1086, 1089, 32, 1085, 1077, 32, 1076, 1086, 1083, 1078, 1077, 1085,
      32, 1073, 1099, 1090, 1100, 32, 1087, 1091, 1089, 1090, 1099, 1084, 46]"

definition msg_invalid_table :: "pystr \<Rightarrow> pystr" where
  "msg_invalid_table n = error_prefix @
     [1048, 1084, 1103, 32, 1090, 1072, 1073, 1083, 1080, 1094, 1099, 32, 39] @ n @
     [39, 32, 1085, 1077, 1076, 1086, 1087, 1091, 1089, 1090, 1080, 1084, 1086, 32, 1080, 1083,
      1080, 32, 1079, 1072, 1088, 1077, 1079, 1077, 1088, 1074, 1080, 1088, 1086, 1074, 1072,
      1085, 1086, 46]"

definition msg_invalid_alias :: "pystr \<Rightarrow> pystr" where
  "msg_invalid_alias a = error_prefix @
     [1055, 1089, 1077, 1074, 1076, 1086, 1085, 1080, 1084, 32, 39] @ a @
     [39, 32, 1085, 1077, 1076, 1086, 1087, 1091, 1089, 1090, 1080, 1084, 32, 1080, 1083, 1080,
      32, 1079, 1072, 1088, 1077, 1079, 1077, 1088, 1074, 1080, 1088, 1086, 1074, 1072, 1085, 46]"

definition MSG_INVALID_COLUMN :: pystr where
  "MSG_INVALID_COLUMN = error_prefix @
     [1054, 1076, 1085, 1086, 32, 1080, 1079, 32, 1080, 1084, 1077, 1085, 32, 1089, 1090, 1086,
      1083, 1073, 1094, 1086, 1074, 32, 1085, 1077, 1076, 1086, 1087, 1091, 1089, 1090, 1080,
      1084, 1086, 32, 1080, 1083, 1080, 32, 1079, 1072, 1088, 1077, 1079, 1077, 1088, 1074, 1080,
      1088, 1086, 1074, 1072, 1085, 1086, 46]"

definition MSG_MISSING_JOIN :: pystr where
  "MSG_MISSING_JOIN = error_prefix @
     [1042, 1089, 1077, 32, 1090, 1072, 1073, 1083, 1080, 1094, 1099, 44, 32, 1082, 1088, 1086,
      1084, 1077, 32, 1087, 1077, 1088, 1074, 1086, 1081, 44, 32, 1076, 1086, 1083, 1078, 1085,
      1099, 32, 1080, 1084, 1077, 1090, 1100, 32, 1091, 1089, 1083, 1086, 1074, 1080, 1077, 32,
      1089, 1086, 1077, 1076, 1080, 1085, 1077, 1085, 1080, 1103, 46]"

text \<open>
  Truthiness of an optional string: \<open>None\<close> and the empty string are false. An f-string
  renders \<open>None\<close> as the text \<open>None\<close>.
\<close>

fun truthy :: "pystr option \<Rightarrow> bool" where
  "truthy None = False"
| "truthy (Some s) = (s \<noteq> [])"

fun fmt :: "pystr option \<Rightarrow> pystr" where
  "fmt None = ascii ''None''"
| "fmt (Some s) = s"

text \<open>
  The first loop of \<open>generate_sql\<close>: each line is parsed and checked, and the first
  failed check returns its message (\<open>Inl\<close>); otherwise the table is appended.
\<close>

fun validate_lines :: "pystr list \<Rightarrow> table list \<Rightarrow> pystr + table list" where
  "validate_lines [] tables = Inr tables"
| "validate_lines (line # rest) tables =
     (let table = parse_table_line line in
      if \<not> is_valid_name (name table) then Inl (msg_invalid_table (name table))
      else if truthy (alias table) \<and> \<not> is_valid_name (fmt (alias table))
        then Inl (msg_invalid_alias (fmt (alias table)))
      else if \<not> list_all is_valid_name (filter (\<lambda>col. col \<noteq> ascii ''*'') (columns table))
        then Inl MSG_INVALID_COLUMN
      else validate_lines rest (tables @ [table]))"

text \<open>
  \<open>any(i > 0 and not t["join_condition"] for i, t in enumerate(tables))\<close>, with the
  index of the head as first argument.
\<close>

fun any_missing_join :: "nat \<Rightarrow> table list \<Rightarrow> bool" where
  "any_missing_join i [] = False"
| "any_missing_join i (t # ts) =
     ((i > 0 \<and> \<not> truthy (join_condition t)) \<or> any_missing_join (Suc i) ts)"

text \<open>\<open>table['alias'] or table['name']\<close> and the list comprehension over the columns.\<close>

definition alias_or_name :: "table \<Rightarrow> pystr" where
  "alias_or_name t = (if truthy (alias t) then fmt (alias t) else name t)"

definition formatted_columns :: "table \<Rightarrow> pystr list" where
  "formatted_columns t = map (\<lambda>col. alias_or_name t @ ascii ''.'' @ col) (columns t)"

definition from_clause_of :: "table \<Rightarrow> pystr" where
  "from_clause_of t =
     (if truthy (alias t)
      then ascii ''FROM '' @ name t @ ascii '' AS '' @ fmt (alias t)
      else ascii ''FROM '' @ name t)"

definition join_clause_of :: "table \<Rightarrow> pystr" where
  "join_clause_of t =
     (if truthy (alias t)
      then ascii ''\<newline>JOIN '' @ name t @ ascii '' AS '' @ fmt (alias t) @ ascii '' ON ''
             @ fmt (join_condition t)
      else ascii ''\<newline>JOIN '' @ name t @ ascii '' ON '' @ fmt (join_condition t))"

text \<open>
  The second loop: the state is \<open>(select_columns, from_clause, join_clauses)\<close>, the first
  argument is the index given by \<open>enumerate\<close>.
\<close>

fun assemble_loop ::
  "nat \<Rightarrow> table list \<Rightarrow> pystr list \<times> pystr \<times> pystr list \<Rightarrow> pystr list \<times> pystr \<times> pystr list"
where
  "assemble_loop i [] st = st"
| "assemble_loop i (t # ts) (select_columns, from_clause, join_clauses) =
     assemble_loop (Suc i) ts
       (select_columns @ formatted_columns t,
        (if i = 0 then from_clause_of t else from_clause),
        (if i = 0 then join_clauses else join_clauses @ [join_clause_of t]))"

definition assemble :: "table list \<Rightarrow> pystr" where
  "assemble tables =
     (case assemble_loop 0 tables ([], [], []) of
        (select_columns, from_clause, join_clauses) \<Rightarrow>
          ascii ''SELECT'' @ ascii '' '' @ join (ascii '', '') select_columns @ ascii '' ''
            @ from_clause @ concat join_clauses @ ascii '';'')"

definition generate_sql :: "pystr \<Rightarrow> pystr" where
  "generate_sql query =
     (let lines = split (strip query) (ascii ''\<newline>'') in
      if lines = [] then MSG_EMPTY_QUERY
      else case validate_lines lines [] of
             Inl message \<Rightarrow> message
           | Inr tables \<Rightarrow>
               if any_missing_join 0 tables then MSG_MISSING_JOIN else assemble tables)"

section \<open>Notions used to state the properties\<close>

text \<open>The descriptors of a query: its lines, parsed in input order.\<close>

definition descriptors :: "pystr \<Rightarrow> table list" where
  "descriptors query = map parse_table_line (split (strip query) (ascii ''\<newline>''))"

text \<open>
  The per-line invariants in their priority: table name, then alias when one is present
  (a non-empty string), then the columns other than the wildcard. The result is the
  message of the first violated invariant.
\<close>

definition first_violation :: "table \<Rightarrow> pystr option" where
  "first_violation t =
     (if \<not> is_valid_name (name t) then Some (msg_invalid_table (name t))
      else case alias t of
        Some a \<Rightarrow>
          if a \<noteq> [] \<and> \<not> is_valid_name a then Some (msg_invalid_alias a)
          else if (\<exists>c \<in> set (columns t). c \<noteq> ascii ''*'' \<and> \<not> is_valid_name c)
            then Some MSG_INVALID_COLUMN else None
      | None \<Rightarrow>
          if (\<exists>c \<in> set (columns t). c \<noteq> ascii ''*'' \<and> \<not> is_valid_name c)
            then Some MSG_INVALID_COLUMN else None)"

text \<open>
  The per-line invariants as the specification words them: the alias is checked whenever
  one is present, that is, whenever it is not \<open>None\<close>.
\<close>

definition spec_first_violation :: "table \<Rightarrow> pystr option" where
  "spec_first_violation t =
     (if \<not> is_valid_name (name t) then Some (msg_invalid_table (name t))
      else case alias t of
        Some a \<Rightarrow>
          if \<not> is_valid_name a then Some (msg_invalid_alias a)
          else if (\<exists>c \<in> set (columns t). c \<noteq> ascii ''*'' \<and> \<not> is_valid_name c)
            then Some MSG_INVALID_COLUMN else None
      | None \<Rightarrow>
          if (\<exists>c \<in> set (columns t). c \<noteq> ascii ''*'' \<and> \<not> is_valid_name c)
            then Some MSG_INVALID_COLUMN else None)"

text \<open>
  The identifier shape over the entire string: a letter or underscore first, then
  letters, digits and underscores only.
\<close>

fun identifier_shape :: "pystr \<Rightarrow> bool" where
  "identifier_shape [] = False"
| "identifier_shape (c # cs) = (is_name_start c \<and> list_all is_name_char cs)"

text \<open>
  The columns segment of a line: the second piece between the separators, \<open>None\<close> when
  the line has no separator.
\<close>

definition columns_segment :: "pystr \<Rightarrow> pystr option" where
  "columns_segment line =
     (let table_info = split (strip line) (ascii '' : '')
      in if length table_info > 1 then Some (table_info ! 1) else None)"

text \<open>The table-spec segment of a line: the first piece.\<close>

definition table_spec :: "pystr \<Rightarrow> pystr" where
  "table_spec line = hd (split (strip line) (ascii '' : ''))"

text \<open>
  The alias as the specification words it: the table-spec segment is split on
  whitespace, and the alias is the token after the first \<open>-\<close>.
\<close>

definition spec_whitespace_alias :: "pystr \<Rightarrow> pystr option" where
  "spec_whitespace_alias line = parse_alias (split_ws (table_spec line))"

text \<open>
  Equality of strings up to the case of the ASCII letters, stated without \<open>upper\<close>.
\<close>

definition same_letter :: "pychar \<Rightarrow> pychar \<Rightarrow> bool" where
  "same_letter c d \<longleftrightarrow>
     c = d \<or> (65 \<le> c \<and> c \<le> 90 \<and> d = c + 32) \<or> (65 \<le> d \<and> d \<le> 90 \<and> c = d + 32)"

definition caseless_eq :: "pystr \<Rightarrow> pystr \<Rightarrow> bool" where
  "caseless_eq s k = list_all2 same_letter s k"

text \<open>The \<open>FROM\<close> clause followed by the \<open>JOIN\<close> clauses of a list of descriptors.\<close>

definition clauses :: "table list \<Rightarrow> pystr" where
  "clauses ts = (case ts of [] \<Rightarrow> [] | t # rest \<Rightarrow> from_clause_of t @ concat (map join_clause_of rest))"

section \<open>Evaluation and auxiliary facts\<close>

lemmas eval_defs = ascii_def isspace_def strip_def split_def split_ws_def upper_char_def
  upper_def is_name_start_def is_name_char_def SQL_RESERVED_KEYWORDS_def is_valid_name_def
  parse_alias_def parse_table_line_def error_prefix_def MSG_EMPTY_QUERY_def
  msg_invalid_table_def msg_invalid_alias_def MSG_INVALID_COLUMN_def MSG_MISSING_JOIN_def
  alias_or_name_def formatted_columns_def from_clause_of_def join_clause_of_def assemble_def
  generate_sql_def Let_def

lemma split_sep_nonempty: "split_sep sep cur s \<noteq> []"
  by (induction sep cur s rule: split_sep.induct) auto

lemma split_nonempty: "split s sep \<noteq> []"
  by (simp add: split_def split_sep_nonempty)

lemma validate_lines_step:
  "validate_lines (l # ls) acc =
     (case first_violation (parse_table_line l) of
        Some e \<Rightarrow> Inl e
      | None \<Rightarrow> validate_lines ls (acc @ [parse_table_line l]))"
  by (cases "alias (parse_table_line l)")
     (auto simp: first_violation_def Let_def list_all_iff)

lemma validate_lines_pass:
  "\<forall>l \<in> set ls. first_violation (parse_table_line l) = None \<Longrightarrow>
   validate_lines ls acc = Inr (acc @ map parse_table_line ls)"
proof (induction ls arbitrary: acc)
  case Nil
  then show ?case by simp
next
  case (Cons l ls)
  then show ?case by (simp add: validate_lines_step del: validate_lines.simps)
qed

lemma validate_lines_fail:
  "k < length ls \<Longrightarrow> \<forall>j<k. first_violation (parse_table_line (ls ! j)) = None \<Longrightarrow>
   first_violation (parse_table_line (ls ! k)) = Some e \<Longrightarrow> validate_lines ls acc = Inl e"
proof (induction ls arbitrary: k acc)
  case Nil
  then show ?case by simp
next
  case (Cons l ls)
  show ?case
  proof (cases k)
    case 0
    with Cons.prems show ?thesis by (simp add: validate_lines_step del: validate_lines.simps)
  next
    case (Suc k')
    from Cons.prems Suc have h0: "first_violation (parse_table_line l) = None" by auto
    from Cons.prems Suc have "\<forall>j<k'. first_violation (parse_table_line (ls ! j)) = None"
      by fastforce
    moreover from Cons.prems Suc have "k' < length ls"
      and "first_violation (parse_table_line (ls ! k')) = Some e" by auto
    ultimately have "validate_lines ls (acc @ [parse_table_line l]) = Inl e"
      using Cons.IH by blast
    with h0 show ?thesis by (simp add: validate_lines_step del: validate_lines.simps)
  qed
qed

lemma any_missing_join_iff:
  "any_missing_join n ts \<longleftrightarrow> (\<exists>i<length ts. 0 < n + i \<and> \<not> truthy (join_condition (ts ! i)))"
proof (induction ts arbitrary: n)
  case Nil
  then show ?case by simp
next
  case (Cons t ts)
  show ?case
  proof
    assume "any_missing_join n (t # ts)"
    then consider "0 < n \<and> \<not> truthy (join_condition t)" | "any_missing_join (Suc n) ts" by auto
    then show "\<exists>i<length (t # ts). 0 < n + i \<and> \<not> truthy (join_condition ((t # ts) ! i))"
    proof cases
      case 1
      then show ?thesis by (intro exI[of _ 0]) simp
    next
      case 2
      then obtain i where "i < length ts" "\<not> truthy (join_condition (ts ! i))"
        using Cons.IH by blast
      then show ?thesis by (intro exI[of _ "Suc i"]) simp
    qed
  next
    assume "\<exists>i<length (t # ts). 0 < n + i \<and> \<not> truthy (join_condition ((t # ts) ! i))"
    then obtain i where i: "i < length (t # ts)" "0 < n + i"
      "\<not> truthy (join_condition ((t # ts) ! i))" by blast
    show "any_missing_join n (t # ts)"
    proof (cases i)
      case 0
      with i show ?thesis by simp
    next
      case (Suc i')
      with i have "i' < length ts" "\<not> truthy (join_condition (ts ! i'))" by auto
      then have "any_missing_join (Suc n) ts" using Cons.IH by auto
      then show ?thesis by simp
    qed
  qed
qed

lemma generate_sql_lines:
  "generate_sql q =
     (case validate_lines (split (strip q) (ascii ''\<newline>'')) [] of
        Inl m \<Rightarrow> m
      | Inr tables \<Rightarrow> if any_missing_join 0 tables then MSG_MISSING_JOIN else assemble tables)"
  by (simp add: generate_sql_def Let_def split_nonempty)

lemma validate_lines_Inl:
  "validate_lines ls acc = Inl e \<Longrightarrow> \<exists>l \<in> set ls. first_violation (parse_table_line l) = Some e"
proof (induction ls arbitrary: acc)
  case Nil
  then show ?case by simp
next
  case (Cons l ls)
  then show ?case
    by (cases "first_violation (parse_table_line l)")
       (auto simp: validate_lines_step simp del: validate_lines.simps)
qed

lemma validate_lines_Inr:
  "validate_lines ls acc = Inr ts \<Longrightarrow>
     (\<forall>l \<in> set ls. first_violation (parse_table_line l) = None) \<and>
     ts = acc @ map parse_table_line ls"
proof (induction ls arbitrary: acc)
  case Nil
  then show ?case by simp
next
  case (Cons l ls)
  show ?case
  proof (cases "first_violation (parse_table_line l)")
    case None
    with Cons.prems have "validate_lines ls (acc @ [parse_table_line l]) = Inr ts"
      by (simp add: validate_lines_step del: validate_lines.simps)
    from Cons.IH[OF this] None show ?thesis by simp
  next
    case (Some e)
    with Cons.prems show ?thesis
      by (simp add: validate_lines_step del: validate_lines.simps)
  qed
qed

lemma validate_lines_acc:
  "validate_lines ls acc =
     (case validate_lines ls [] of Inl e \<Rightarrow> Inl e | Inr ts \<Rightarrow> Inr (acc @ ts))"
proof (induction ls arbitrary: acc)
  case Nil
  then show ?case by simp
next
  case (Cons l ls)
  show ?case
  proof (cases "first_violation (parse_table_line l)")
    case None
    then show ?thesis
      using Cons.IH[of "acc @ [parse_table_line l]"] Cons.IH[of "[parse_table_line l]"]
      by (simp add: validate_lines_step del: validate_lines.simps split: sum.splits)
  next
    case (Some e)
    then show ?thesis by (simp add: validate_lines_step del: validate_lines.simps)
  qed
qed

lemma first_violation_cases:
  "first_violation t = Some e \<Longrightarrow>
     (\<not> is_valid_name (name t) \<and> e = msg_invalid_table (name t)) \<or>
     (\<exists>a. alias t = Some a \<and> a \<noteq> [] \<and> \<not> is_valid_name a \<and> e = msg_invalid_alias a) \<or>
     (e = MSG_INVALID_COLUMN \<and> (\<exists>c \<in> set (columns t). c \<noteq> ascii ''*'' \<and> \<not> is_valid_name c))"
  by (auto simp: first_violation_def split: if_splits option.splits)

lemma first_violation_Some_iff:
  "first_violation t \<noteq> None \<longleftrightarrow>
     \<not> is_valid_name (name t) \<or> (truthy (alias t) \<and> \<not> is_valid_name (fmt (alias t))) \<or>
     (\<exists>c \<in> set (columns t). c \<noteq> ascii ''*'' \<and> \<not> is_valid_name c)"
  by (cases "alias t") (auto simp: first_violation_def)

lemma messages_prefix:
  "prefix error_prefix (msg_invalid_table n)" "prefix error_prefix (msg_invalid_alias a)"
  "prefix error_prefix MSG_INVALID_COLUMN" "prefix error_prefix MSG_MISSING_JOIN"
  by (simp_all add: msg_invalid_table_def msg_invalid_alias_def MSG_INVALID_COLUMN_def
        MSG_MISSING_JOIN_def)

lemma error_prefix_not_sql:
  "prefix error_prefix s \<Longrightarrow> \<not> prefix (ascii ''SELECT'') s \<and> \<not> prefix (ascii ''FROM'') s"
  by (cases s) (auto simp: error_prefix_def ascii_def)

lemma messages_name:
  "sublist n (msg_invalid_table n)" "sublist a (msg_invalid_alias a)"
  unfolding msg_invalid_table_def msg_invalid_alias_def
  by (metis append.assoc sublist_appendI)+

lemma generate_sql_first_violation:
  assumes "\<exists>t \<in> set (descriptors q). first_violation t \<noteq> None"
  shows "\<exists>t \<in> set (descriptors q). first_violation t = Some (generate_sql q)"
proof -
  define ls where "ls = split (strip q) (ascii ''\<newline>'')"
  have "\<not> (\<forall>l \<in> set ls. first_violation (parse_table_line l) = None)"
    using assms by (auto simp: descriptors_def ls_def)
  then have "\<forall>ts. validate_lines ls [] \<noteq> Inr ts"
    using validate_lines_Inr by blast
  then obtain e where e: "validate_lines ls [] = Inl e"
    by (cases "validate_lines ls []") auto
  then have "generate_sql q = e" by (simp add: generate_sql_lines ls_def)
  with validate_lines_Inl[OF e] show ?thesis
    by (auto simp: descriptors_def ls_def)
qed

lemma assemble_loop_eq:
  "assemble_loop i ts (sc, fc, jc) =
     (sc @ concat (map formatted_columns ts),
      (if i = 0 \<and> ts \<noteq> [] then from_clause_of (hd ts) else fc),
      jc @ map join_clause_of (if i = 0 then tl ts else ts))"
  by (induction ts arbitrary: i sc fc jc) auto

lemma assemble_eq:
  "assemble ts = ascii ''SELECT '' @ join (ascii '', '') (concat (map formatted_columns ts))
     @ ascii '' '' @ clauses ts @ ascii '';''"
  by (cases ts) (simp_all add: assemble_def assemble_loop_eq clauses_def ascii_def)

section \<open>The claims\<close>

text \<open>
  C1. The two-line query with aliases, columns and a join condition on the second line
  yields exactly the expected statement: columns qualified by alias in input order, the
  first table as \<open>FROM ... AS\<close>, the second as a \<open>JOIN ... ON\<close> on a new line, and one
  semicolon at the end.
\<close>

theorem generate_sql_customers_orders:
  "generate_sql (ascii ''customers - c : name age\<newline>orders - o : order_date : c.id = o.customer_id'')
   = ascii ''SELECT c.name, c.age, o.order_date FROM customers AS c\<newline>JOIN orders AS o ON c.id = o.customer_id;''"
  by (simp add: eval_defs)

text \<open>
  C2, as the code has it. The descriptors are validated in input order and the first
  violated per-line invariant (table name, then the alias when it is a non-empty string,
  then the columns) decides the result at once; the join-condition check is reached only
  when every descriptor passes, and any number of later descriptors without a non-empty
  join condition give the one aggregate message; otherwise the statement is assembled.
\<close>

theorem generate_sql_validation_order:
  "(k < length (descriptors q) \<and> (\<forall>j<k. first_violation (descriptors q ! j) = None) \<and>
      first_violation (descriptors q ! k) = Some e \<longrightarrow> generate_sql q = e) \<and>
   ((\<forall>t \<in> set (descriptors q). first_violation t = None) \<and>
      (\<exists>i<length (descriptors q). 0 < i \<and> \<not> truthy (join_condition (descriptors q ! i)))
      \<longrightarrow> generate_sql q = MSG_MISSING_JOIN) \<and>
   ((\<forall>t \<in> set (descriptors q). first_violation t = None) \<and>
      \<not> (\<exists>i<length (descriptors q). 0 < i \<and> \<not> truthy (join_condition (descriptors q ! i)))
      \<longrightarrow> generate_sql q = assemble (descriptors q))"
proof -
  define ls where "ls = split (strip q) (ascii ''\<newline>'')"
  have d: "descriptors q = map parse_table_line ls" by (simp add: descriptors_def ls_def)
  have g: "generate_sql q = (case validate_lines ls [] of Inl m \<Rightarrow> m
      | Inr tables \<Rightarrow> if any_missing_join 0 tables then MSG_MISSING_JOIN else assemble tables)"
    by (simp add: generate_sql_lines ls_def)
  have a: "generate_sql q = e" if "k < length (descriptors q)"
    "\<forall>j<k. first_violation (descriptors q ! j) = None"
    "first_violation (descriptors q ! k) = Some e"
  proof -
    from that have "validate_lines ls [] = Inl e"
      by (intro validate_lines_fail[of k]) (auto simp: d)
    then show ?thesis by (simp add: g)
  qed
  have p: "validate_lines ls [] = Inr (descriptors q)"
    if "\<forall>t \<in> set (descriptors q). first_violation t = None"
    using that validate_lines_pass[of ls "[]"] by (simp add: d)
  show ?thesis
    using a by (auto simp: g p any_missing_join_iff)
qed

text \<open>
  C2 as stated fails where the alias is present and empty: in \<open>a -  1b\<close>, with two
  spaces after \<open>-\<close>, the alias is the empty string, which is no identifier; the alias
  check is skipped and the statement is assembled without an alias.
\<close>

theorem generate_sql_empty_alias_counterexample:
  "alias (parse_table_line (ascii ''a -  1b'')) = Some [] \<and>
   spec_first_violation (parse_table_line (ascii ''a -  1b'')) = Some (msg_invalid_alias []) \<and>
   generate_sql (ascii ''a -  1b'') = ascii ''SELECT a.* FROM a;'' \<and>
   generate_sql (ascii ''a -  1b'') \<noteq> msg_invalid_alias []"
  by (simp add: spec_first_violation_def eval_defs)

text \<open>
  An instance of the amended C2: the second line fails on its table name although its alias and its
  column are invalid too and the third line is invalid as well; two lines without a join
  condition give the one aggregate message; a valid query is assembled.
\<close>

theorem generate_sql_validation_order_witness:
  "generate_sql (ascii ''a : x\<newline>1b - select : 2c\<newline>from'') = msg_invalid_table (ascii ''1b'') \<and>
   generate_sql (ascii ''a : x\<newline>b : y\<newline>c : z'') = MSG_MISSING_JOIN \<and>
   generate_sql (ascii ''a : x\<newline>b : y : a.i = b.i'') =
     assemble (descriptors (ascii ''a : x\<newline>b : y : a.i = b.i''))"
proof -
  let ?q1 = "ascii ''a : x\<newline>1b - select : 2c\<newline>from''"
  let ?q2 = "ascii ''a : x\<newline>b : y\<newline>c : z''"
  let ?q3 = "ascii ''a : x\<newline>b : y : a.i = b.i''"
  have d1: "descriptors ?q1 =
   [\<lparr>name = ascii ''a'', alias = None, columns = [ascii ''x''], join_condition = None\<rparr>,
    \<lparr>name = ascii ''1b'', alias = Some (ascii ''select''), columns = [ascii ''2c''],
      join_condition = None\<rparr>,
    \<lparr>name = ascii ''from'', alias = None, columns = [ascii ''*''], join_condition = None\<rparr>]"
    by (simp add: descriptors_def eval_defs)
  have d2: "descriptors ?q2 =
   [\<lparr>name = ascii ''a'', alias = None, columns = [ascii ''x''], join_condition = None\<rparr>,
    \<lparr>name = ascii ''b'', alias = None, columns = [ascii ''y''], join_condition = None\<rparr>,
    \<lparr>name = ascii ''c'', alias = None, columns = [ascii ''z''], join_condition = None\<rparr>]"
    by (simp add: descriptors_def eval_defs)
  have d3: "descriptors ?q3 =
   [\<lparr>name = ascii ''a'', alias = None, columns = [ascii ''x''], join_condition = None\<rparr>,
    \<lparr>name = ascii ''b'', alias = None, columns = [ascii ''y''],
      join_condition = Some (ascii ''a.i = b.i'')\<rparr>]"
    by (simp add: descriptors_def eval_defs)
  have h1: "1 < length (descriptors ?q1) \<and>
      (\<forall>j<1. first_violation (descriptors ?q1 ! j) = None) \<and>
      first_violation (descriptors ?q1 ! 1) = Some (msg_invalid_table (ascii ''1b''))"
    unfolding d1 by (simp add: first_violation_def eval_defs)
  have h2: "(\<forall>t \<in> set (descriptors ?q2). first_violation t = None) \<and>
      (\<exists>i<length (descriptors ?q2). 0 < i \<and> \<not> truthy (join_condition (descriptors ?q2 ! i)))"
    unfolding d2 by (auto simp: first_violation_def eval_defs intro: exI[of _ 1])
  have h3: "(\<forall>t \<in> set (descriptors ?q3). first_violation t = None) \<and>
      \<not> (\<exists>i<length (descriptors ?q3). 0 < i \<and> \<not> truthy (join_condition (descriptors ?q3 ! i)))"
    unfolding d3 by (auto simp: first_violation_def eval_defs less_Suc_eq)
  from h1 h2 h3 generate_sql_validation_order[of 1 ?q1 "msg_invalid_table (ascii ''1b'')"]
    generate_sql_validation_order[of 0 ?q2 "[]"] generate_sql_validation_order[of 0 ?q3 "[]"]
  show ?thesis by blast
qed

text \<open>
  C3, as the code has it. When some line has an invalid table name, an invalid present
  alias or an invalid column other than the wildcard, the result starts with the error
  prefix of the source, so neither \<open>SELECT\<close> nor \<open>FROM\<close> leads it, and it is the message
  of one such line: the table-name message and the alias message quote the offending
  identifier, while the column message is one fixed text for every column.
\<close>

theorem generate_sql_invalid_identifier:
  assumes "\<exists>t \<in> set (descriptors q).
     \<not> is_valid_name (name t) \<or> (truthy (alias t) \<and> \<not> is_valid_name (fmt (alias t))) \<or>
     (\<exists>c \<in> set (columns t). c \<noteq> ascii ''*'' \<and> \<not> is_valid_name c)"
  shows "prefix error_prefix (generate_sql q) \<and>
     \<not> prefix (ascii ''SELECT'') (generate_sql q) \<and> \<not> prefix (ascii ''FROM'') (generate_sql q) \<and>
     ((\<exists>t \<in> set (descriptors q). \<not> is_valid_name (name t) \<and>
          generate_sql q = msg_invalid_table (name t) \<and> sublist (name t) (generate_sql q)) \<or>
      (\<exists>t \<in> set (descriptors q). \<exists>a. alias t = Some a \<and> a \<noteq> [] \<and> \<not> is_valid_name a \<and>
          generate_sql q = msg_invalid_alias a \<and> sublist a (generate_sql q)) \<or>
      (generate_sql q = MSG_INVALID_COLUMN \<and>
         (\<exists>t \<in> set (descriptors q). \<exists>c \<in> set (columns t). c \<noteq> ascii ''*'' \<and> \<not> is_valid_name c)))"
proof -
  from assms have "\<exists>t \<in> set (descriptors q). first_violation t \<noteq> None"
    using first_violation_Some_iff by blast
  then obtain t where t: "t \<in> set (descriptors q)" "first_violation t = Some (generate_sql q)"
    using generate_sql_first_violation by blast
  from first_violation_cases[OF t(2)]
  have c: "(\<not> is_valid_name (name t) \<and> generate_sql q = msg_invalid_table (name t)) \<or>
     (\<exists>a. alias t = Some a \<and> a \<noteq> [] \<and> \<not> is_valid_name a \<and> generate_sql q = msg_invalid_alias a) \<or>
     (generate_sql q = MSG_INVALID_COLUMN \<and>
        (\<exists>c \<in> set (columns t). c \<noteq> ascii ''*'' \<and> \<not> is_valid_name c))" .
  then have p: "prefix error_prefix (generate_sql q)"
    using messages_prefix by auto
  from c t(1) have "(\<exists>t \<in> set (descriptors q). \<not> is_valid_name (name t) \<and>
          generate_sql q = msg_invalid_table (name t) \<and> sublist (name t) (generate_sql q)) \<or>
      (\<exists>t \<in> set (descriptors q). \<exists>a. alias t = Some a \<and> a \<noteq> [] \<and> \<not> is_valid_name a \<and>
          generate_sql q = msg_invalid_alias a \<and> sublist a (generate_sql q)) \<or>
      (generate_sql q = MSG_INVALID_COLUMN \<and>
         (\<exists>t \<in> set (descriptors q). \<exists>c \<in> set (columns t). c \<noteq> ascii ''*'' \<and> \<not> is_valid_name c))"
    using messages_name by metis
  with p error_prefix_not_sql[OF p] show ?thesis by blast
qed

text \<open>
  C3 as stated fails for columns: for the line \<open>a : 1x\<close> the column \<open>1x\<close> is invalid and
  the returned message does not contain it.
\<close>

theorem generate_sql_column_error_counterexample:
  "columns (parse_table_line (ascii ''a : 1x'')) = [ascii ''1x''] \<and>
   \<not> is_valid_name (ascii ''1x'') \<and>
   \<not> sublist (ascii ''1x'') (generate_sql (ascii ''a : 1x''))"
proof -
  have g: "generate_sql (ascii ''a : 1x'') = MSG_INVALID_COLUMN"
    by (simp add: eval_defs)
  have "49 \<notin> set MSG_INVALID_COLUMN"
    by (simp add: MSG_INVALID_COLUMN_def error_prefix_def)
  then have "\<not> sublist (ascii ''1x'') MSG_INVALID_COLUMN"
    using set_mono_sublist[of "ascii ''1x''" MSG_INVALID_COLUMN] by (auto simp: ascii_def)
  moreover have "columns (parse_table_line (ascii ''a : 1x'')) = [ascii ''1x'']"
    by (simp add: eval_defs)
  moreover have "\<not> is_valid_name (ascii ''1x'')"
    by (simp add: eval_defs)
  ultimately show ?thesis by (simp add: g)
qed

text \<open>An instance of the amended C3, with an invalid alias.\<close>

theorem generate_sql_invalid_identifier_witness:
  "generate_sql (ascii ''a - 9z : x'') = msg_invalid_alias (ascii ''9z'') \<and>
   prefix error_prefix (generate_sql (ascii ''a - 9z : x'')) \<and>
   \<not> prefix (ascii ''SELECT'') (generate_sql (ascii ''a - 9z : x''))"
proof -
  have d: "descriptors (ascii ''a - 9z : x'') =
    [\<lparr>name = ascii ''a'', alias = Some (ascii ''9z''), columns = [ascii ''x''],
      join_condition = None\<rparr>]"
    by (simp add: descriptors_def eval_defs)
  have h: "\<exists>t \<in> set (descriptors (ascii ''a - 9z : x'')).
     \<not> is_valid_name (name t) \<or> (truthy (alias t) \<and> \<not> is_valid_name (fmt (alias t))) \<or>
     (\<exists>c \<in> set (columns t). c \<noteq> ascii ''*'' \<and> \<not> is_valid_name c)"
    unfolding d by (simp add: eval_defs)
  have g: "generate_sql (ascii ''a - 9z : x'') = msg_invalid_alias (ascii ''9z'')"
    by (simp add: eval_defs)
  from generate_sql_invalid_identifier[OF h] g show ?thesis by blast
qed

text \<open>
  C4, as the code has it. The query \<open>products : : \<close> is trimmed to \<open>products : :\<close>, which
  the separator splits into \<open>products\<close> and \<open>:\<close>; the column \<open>:\<close> is not an identifier
  and the column message is returned. The wildcard default, qualified by the table name,
  is what the query \<open>products\<close> yields.
\<close>

theorem generate_sql_products:
  "split (strip (ascii ''products : : '')) (ascii '' : '') = [ascii ''products'', ascii '':''] \<and>
   generate_sql (ascii ''products : : '') = MSG_INVALID_COLUMN \<and>
   generate_sql (ascii ''products'') = ascii ''SELECT products.* FROM products;''"
  by (simp add: eval_defs)

text \<open>C4 as stated fails: the query \<open>products : : \<close> does not yield the statement.\<close>

theorem generate_sql_products_counterexample:
  "generate_sql (ascii ''products : : '') \<noteq> ascii ''SELECT products.* FROM products;''"
  by (simp add: eval_defs)

lemma assemble_not_error: "\<not> prefix error_prefix (assemble ts)"
  by (simp add: assemble_def ascii_def error_prefix_def split: prod.splits)

lemma messages_not_empty_query:
  "msg_invalid_table n \<noteq> MSG_EMPTY_QUERY" "msg_invalid_alias a \<noteq> MSG_EMPTY_QUERY"
  "MSG_INVALID_COLUMN \<noteq> MSG_EMPTY_QUERY" "MSG_MISSING_JOIN \<noteq> MSG_EMPTY_QUERY"
  "assemble ts \<noteq> MSG_EMPTY_QUERY"
      apply (simp_all add: msg_invalid_table_def msg_invalid_alias_def MSG_INVALID_COLUMN_def
        MSG_MISSING_JOIN_def MSG_EMPTY_QUERY_def)
  apply (simp add: assemble_def ascii_def error_prefix_def split: prod.splits)
  done

lemma strip_all_space: "list_all isspace q \<Longrightarrow> strip q = []"
proof -
  assume "list_all isspace q"
  then have d: "dropWhile isspace q = []" by (simp add: list_all_iff)
  show ?thesis unfolding strip_def d by simp
qed

text \<open>
  C5. The empty-query message is returned exactly when the list of lines is empty, which
  never happens: no query yields that message. A query of whitespace only has the one
  empty line, whose empty table name fails the identifier check.
\<close>

theorem generate_sql_never_empty_query:
  "(generate_sql q = MSG_EMPTY_QUERY \<longleftrightarrow> split (strip q) (ascii ''\<newline>'') = []) \<and>
   generate_sql q \<noteq> MSG_EMPTY_QUERY \<and>
   (list_all isspace q \<longrightarrow>
      \<not> is_valid_name (name (parse_table_line [])) \<and> generate_sql q = msg_invalid_table [])"
proof -
  have ne: "generate_sql q \<noteq> MSG_EMPTY_QUERY"
  proof (cases "validate_lines (split (strip q) (ascii ''\<newline>'')) []")
    case (Inl e)
    then have g: "generate_sql q = e" by (simp add: generate_sql_lines)
    from validate_lines_Inl[OF Inl] obtain t where "first_violation t = Some e" by blast
    from first_violation_cases[OF this] have "e \<noteq> MSG_EMPTY_QUERY"
      using messages_not_empty_query by metis
    then show ?thesis by (simp add: g)
  next
    case (Inr ts)
    then show ?thesis using messages_not_empty_query by (simp add: generate_sql_lines)
  qed
  have ws: "\<not> is_valid_name (name (parse_table_line [])) \<and> generate_sql q = msg_invalid_table []"
    if "list_all isspace q"
  proof -
    have s: "strip q = []" using that by (rule strip_all_space)
    show ?thesis unfolding generate_sql_lines s
      by (simp add: generate_sql_lines split_def is_valid_name_def parse_table_line_def Let_def
          strip_def parse_alias_def ascii_def)
  qed
  show ?thesis using ne ws split_nonempty by auto
qed

text \<open>An instance of C5: the empty query and a query of blanks and a newline.\<close>

theorem generate_sql_never_empty_query_witness:
  "list_all isspace (ascii '' \<newline>  '') \<and>
   generate_sql (ascii '' \<newline>  '') = msg_invalid_table [] \<and>
   generate_sql (ascii '' \<newline>  '') \<noteq> MSG_EMPTY_QUERY \<and>
   generate_sql [] = msg_invalid_table []"
proof -
  have h: "list_all isspace (ascii '' \<newline>  '')" by (simp add: ascii_def isspace_def)
  have h0: "list_all isspace []" by simp
  from h h0 generate_sql_never_empty_query[of "ascii '' \<newline>  ''"]
    generate_sql_never_empty_query[of "[]"]
  show ?thesis by blast
qed

lemma match_valid_name_shape:
  assumes m: "match_valid_name s"
  shows "identifier_shape s \<or> (\<exists>ident. s = ident @ [10] \<and> identifier_shape ident)"
proof (cases s)
  case Nil
  with m show ?thesis by simp
next
  case (Cons c cs)
  with m have st: "is_name_start c"
    and r: "dropWhile is_name_char cs = [] \<or> dropWhile is_name_char cs = [10]"
    by (simp_all add: Let_def)
  from r show ?thesis
  proof
    assume "dropWhile is_name_char cs = []"
    then have "list_all is_name_char cs" by (simp add: list_all_iff)
    with st Cons show ?thesis by simp
  next
    assume d: "dropWhile is_name_char cs = [10]"
    have "cs = takeWhile is_name_char cs @ dropWhile is_name_char cs" by simp
    then have cs: "cs = takeWhile is_name_char cs @ [10]" using d by simp
    have "list_all is_name_char (takeWhile is_name_char cs)"
      by (auto simp: list_all_iff dest: set_takeWhileD)
    then have "identifier_shape (c # takeWhile is_name_char cs)" using st by simp
    moreover have "s = (c # takeWhile is_name_char cs) @ [10]" using Cons cs by simp
    ultimately show ?thesis by blast
  qed
qed

lemma split_sep_chars:
  "x \<in> set (split_sep sep cur s) \<Longrightarrow> set x \<subseteq> set cur \<union> set s"
proof (induction sep cur s arbitrary: x rule: split_sep.induct)
  case (1 sep cur)
  then show ?case by simp
next
  case (2 sep cur c cs)
  show ?case
  proof (cases "sep \<noteq> [] \<and> prefix sep (c # cs)")
    case True
    with "2.prems" have "x = rev cur \<or> x \<in> set (split_sep sep [] (drop (length sep) (c # cs)))"
      by simp
    then show ?thesis
    proof
      assume "x = rev cur"
      then show ?thesis by auto
    next
      assume "x \<in> set (split_sep sep [] (drop (length sep) (c # cs)))"
      from "2.IH"(1)[OF True this] have "set x \<subseteq> set (drop (length sep) (c # cs))" by simp
      moreover have "set (drop (length sep) (c # cs)) \<subseteq> set (c # cs)" by (rule set_drop_subset)
      ultimately show ?thesis by auto
    qed
  next
    case False
    with "2.prems" have "x \<in> set (split_sep sep (c # cur) cs)" by auto
    from "2.IH"(2)[OF False this] show ?thesis by auto
  qed
qed

lemma split_chars: "x \<in> set (split s sep) \<Longrightarrow> set x \<subseteq> set s"
  using split_sep_chars[of x sep "[]" s] by (simp add: split_def)

lemma split_newline_free:
  "x \<in> set (split_sep [10] cur s) \<Longrightarrow> 10 \<notin> set cur \<Longrightarrow> 10 \<notin> set x"
proof (induction "[10::nat]" cur s arbitrary: x rule: split_sep.induct)
  case (1 cur)
  then show ?case by simp
next
  case (2 cur c cs)
  show ?case
  proof (cases "c = 10")
    case True
    with "2.prems" have "x = rev cur \<or> x \<in> set (split_sep [10] [] cs)" by simp
    then show ?thesis
    proof
      assume "x = rev cur"
      with "2.prems" show ?thesis by simp
    next
      assume "x \<in> set (split_sep [10] [] cs)"
      then show ?thesis using "2.hyps"(1)[of x] True by simp
    qed
  next
    case False
    with "2.prems" have "x \<in> set (split_sep [10] (c # cur) cs)" by simp
    then show ?thesis using "2.hyps"(2)[of x] False "2.prems" by simp
  qed
qed

lemma split_ws_from_chars:
  "x \<in> set (split_ws_from cur s) \<Longrightarrow> set x \<subseteq> set cur \<union> set s"
  by (induction cur s arbitrary: x rule: split_ws_from.induct)
     (fastforce split: if_splits)+

lemma strip_chars: "set (strip s) \<subseteq> set s"
proof -
  have "set (strip s) = set (dropWhile isspace (rev (dropWhile isspace s)))"
    by (simp add: strip_def)
  also have "\<dots> \<subseteq> set (rev (dropWhile isspace s))" by (auto dest: set_dropWhileD)
  also have "\<dots> \<subseteq> set s" by (auto dest: set_dropWhileD)
  finally show ?thesis .
qed

lemma parse_alias_mem: "parse_alias parts = Some a \<Longrightarrow> a \<in> set parts"
  by (auto simp: parse_alias_def split: option.splits if_splits)

lemma parse_table_line_chars:
  assumes "10 \<notin> set l"
  shows "10 \<notin> set (name (parse_table_line l)) \<and>
    (\<forall>a. alias (parse_table_line l) = Some a \<longrightarrow> 10 \<notin> set a) \<and>
    (\<forall>c \<in> set (columns (parse_table_line l)). 10 \<notin> set c)"
proof -
  define table_info where "table_info = split (strip l) (ascii '' : '')"
  define parts where "parts = split (hd table_info) (ascii '' '')"
  have s: "10 \<notin> set (strip l)" using assms strip_chars by blast
  have ti: "10 \<notin> set x" if "x \<in> set table_info" for x
    using that s split_chars unfolding table_info_def by blast
  have "table_info \<noteq> []" by (simp add: table_info_def split_nonempty)
  then have "hd table_info \<in> set table_info" by simp
  then have h: "10 \<notin> set (hd table_info)" by (rule ti)
  have pt: "10 \<notin> set x" if "x \<in> set parts" for x
    using that h split_chars unfolding parts_def by blast
  have "parts \<noteq> []" by (simp add: parts_def split_nonempty)
  then have "hd parts \<in> set parts" by simp
  then have n: "10 \<notin> set (name (parse_table_line l))"
    using pt by (simp add: parse_table_line_def Let_def table_info_def parts_def)
  have a: "10 \<notin> set a" if "alias (parse_table_line l) = Some a" for a
  proof -
    from that have "parse_alias parts = Some a"
      by (simp add: parse_table_line_def Let_def table_info_def parts_def)
    then show ?thesis using parse_alias_mem pt by blast
  qed
  have c: "10 \<notin> set c" if "c \<in> set (columns (parse_table_line l))" for c
  proof (cases "length table_info > 1 \<and> table_info ! 1 \<noteq> []")
    case True
    then have "table_info ! 1 \<in> set table_info" by simp
    then have "10 \<notin> set (table_info ! 1)" by (rule ti)
    moreover from that True have "c \<in> set (split_ws (table_info ! 1))"
      by (simp add: parse_table_line_def Let_def table_info_def)
    ultimately show ?thesis using split_ws_from_chars[of c "[]"] by (auto simp: split_ws_def)
  next
    case False
    with that have "c = ascii ''*''"
      by (auto simp: parse_table_line_def Let_def table_info_def)
    then show ?thesis by (simp add: ascii_def)
  qed
  show ?thesis using n a c by blast
qed

text \<open>
  C8, as the code has it. A string that \<open>is_valid_name\<close> accepts has the identifier
  shape over its entire length, or is such a string followed by one final newline; a
  string without a newline is accepted only with the shape over its entire length. The
  names, aliases and columns of the descriptors of a query never contain a newline,
  since the query is split at the newlines first.
\<close>

theorem is_valid_name_shape:
  "(is_valid_name s \<longrightarrow>
      identifier_shape s \<or> (\<exists>ident. s = ident @ [10] \<and> identifier_shape ident)) \<and>
   (is_valid_name s \<and> 10 \<notin> set s \<longrightarrow> identifier_shape s) \<and>
   (t \<in> set (descriptors q) \<longrightarrow>
      10 \<notin> set (name t) \<and> (\<forall>a. alias t = Some a \<longrightarrow> 10 \<notin> set a) \<and>
      (\<forall>c \<in> set (columns t). 10 \<notin> set c))"
proof -
  have 1: "identifier_shape s \<or> (\<exists>ident. s = ident @ [10] \<and> identifier_shape ident)"
    if "is_valid_name s"
    using that match_valid_name_shape by (simp add: is_valid_name_def)
  have 2: "identifier_shape s" if "is_valid_name s" "10 \<notin> set s"
    using 1[OF that(1)] that(2) by auto
  have 3: "10 \<notin> set (name t) \<and> (\<forall>a. alias t = Some a \<longrightarrow> 10 \<notin> set a) \<and>
      (\<forall>c \<in> set (columns t). 10 \<notin> set c)" if "t \<in> set (descriptors q)"
  proof -
    from that obtain l where l: "l \<in> set (split (strip q) (ascii ''\<newline>''))"
      and t: "t = parse_table_line l" by (auto simp: descriptors_def)
    from l have "10 \<notin> set l"
      using split_newline_free[of l "[]" "strip q"] by (simp add: split_def ascii_def)
    then show ?thesis unfolding t by (rule parse_table_line_chars)
  qed
  show ?thesis using 1 2 3 by blast
qed

text \<open>
  C8 as stated fails at a name that ends with a newline: the pattern's \<^verbatim>\<open>$\<close> matches
  before a final newline, and \<open>is_valid_name\<close> accepts \<open>abc\<close> followed by a newline.
\<close>

theorem is_valid_name_newline_counterexample:
  "is_valid_name (ascii ''abc\<newline>'') \<and> \<not> identifier_shape (ascii ''abc\<newline>'')"
  by (simp add: eval_defs)

text \<open>
  An instance of the amended C8: a name with a final newline, a name without, and the
  descriptor of a line of a two-line query.
\<close>

theorem is_valid_name_shape_witness:
  "is_valid_name (ascii ''abc\<newline>'') \<and> identifier_shape (ascii ''abc'') \<and>
   is_valid_name (ascii ''a_1'') \<and> 10 \<notin> set (ascii ''a_1'') \<and> identifier_shape (ascii ''a_1'') \<and>
   10 \<notin> set (name (parse_table_line (ascii ''t - u : v'')))"
proof -
  have v1: "is_valid_name (ascii ''abc\<newline>'')" by (simp add: eval_defs)
  have v2: "is_valid_name (ascii ''a_1'') \<and> 10 \<notin> set (ascii ''a_1'')" by (simp add: eval_defs)
  have d: "parse_table_line (ascii ''t - u : v'') \<in> set (descriptors (ascii ''x : y\<newline>t - u : v''))"
    by (simp add: descriptors_def eval_defs)
  have e: "ascii ''abc\<newline>'' = ascii ''abc'' @ [10]" by (simp add: ascii_def)
  have sh: "identifier_shape (ascii ''abc'')" by (simp add: eval_defs)
  from is_valid_name_shape[of "ascii ''abc\<newline>''" "parse_table_line (ascii ''t - u : v'')"
      "ascii ''x : y\<newline>t - u : v''"]
    is_valid_name_shape[of "ascii ''a_1''" "parse_table_line (ascii ''t - u : v'')"
      "ascii ''x : y\<newline>t - u : v''"] v1 v2 d sh
  show ?thesis by blast
qed

lemma same_letter_upper: "same_letter c d \<Longrightarrow> upper_char c = upper_char d"
  by (auto simp: same_letter_def upper_char_def)

lemma caseless_eq_upper: "caseless_eq s k \<Longrightarrow> upper s = upper k"
  unfolding caseless_eq_def upper_def
  by (induction s k rule: list_all2_induct) (auto simp: same_letter_upper)

lemma keywords_upper: "k \<in> set SQL_RESERVED_KEYWORDS \<Longrightarrow> upper k = k"
  by (auto simp: SQL_RESERVED_KEYWORDS_def upper_def upper_char_def ascii_def)

text \<open>
  C9. There are 26 reserved words; every string equal to one of them up to the case of
  its letters is rejected, whatever its shape; and the query \<open>SELECT : id\<close> yields the
  table-name message quoting \<open>SELECT\<close>.
\<close>

theorem reserved_words_rejected:
  "length SQL_RESERVED_KEYWORDS = 26 \<and>
   (k \<in> set SQL_RESERVED_KEYWORDS \<and> caseless_eq s k \<longrightarrow> \<not> is_valid_name s) \<and>
   generate_sql (ascii ''SELECT : id'') = msg_invalid_table (ascii ''SELECT'')"
proof -
  have "\<not> is_valid_name s" if "k \<in> set SQL_RESERVED_KEYWORDS" "caseless_eq s k"
  proof -
    from that have "upper s = k" by (simp add: caseless_eq_upper keywords_upper)
    with that(1) show ?thesis by (simp add: is_valid_name_def)
  qed
  moreover have "length SQL_RESERVED_KEYWORDS = 26" by (simp add: SQL_RESERVED_KEYWORDS_def)
  moreover have "generate_sql (ascii ''SELECT : id'') = msg_invalid_table (ascii ''SELECT'')"
    by (simp add: eval_defs)
  ultimately show ?thesis by blast
qed

text \<open>
  An instance of C9: \<open>Order\<close> has the identifier shape and is rejected as the reserved
  word \<open>ORDER\<close>.
\<close>

theorem reserved_words_rejected_witness:
  "ascii ''ORDER'' \<in> set SQL_RESERVED_KEYWORDS \<and> caseless_eq (ascii ''Order'') (ascii ''ORDER'') \<and>
   match_valid_name (ascii ''Order'') \<and> \<not> is_valid_name (ascii ''Order'')"
proof -
  have h: "ascii ''ORDER'' \<in> set SQL_RESERVED_KEYWORDS \<and>
    caseless_eq (ascii ''Order'') (ascii ''ORDER'')"
    by (simp add: SQL_RESERVED_KEYWORDS_def caseless_eq_def same_letter_def ascii_def)
  have m: "match_valid_name (ascii ''Order'')" by (simp add: eval_defs)
  from h m reserved_words_rejected[of "ascii ''ORDER''" "ascii ''Order''"]
  show ?thesis by blast
qed

text \<open>
  C6, as the code has it. The columns are the wildcard alone when the columns segment is
  absent or empty, and the whitespace-split tokens of the segment otherwise (which are
  again the wildcard alone when the segment is \<open>*\<close>). A line without the segment
  contributes \<open><alias-or-name>.*\<close>, and the statement of a valid query lists the
  formatted columns of its descriptors in order.
\<close>

theorem parse_table_line_columns:
  "columns (parse_table_line line) =
     (case columns_segment line of
        None \<Rightarrow> [ascii ''*'']
      | Some seg \<Rightarrow> if seg = [] then [ascii ''*''] else split_ws seg) \<and>
   (columns_segment line = None \<or> columns_segment line = Some [] \<longrightarrow>
      formatted_columns (parse_table_line line) =
        [alias_or_name (parse_table_line line) @ ascii ''.*'']) \<and>
   ((\<forall>t \<in> set (descriptors q). first_violation t = None) \<and>
      \<not> any_missing_join 0 (descriptors q) \<longrightarrow>
      generate_sql q =
        ascii ''SELECT '' @ join (ascii '', '') (concat (map formatted_columns (descriptors q)))
          @ ascii '' '' @ clauses (descriptors q) @ ascii '';'')"
proof -
  have c: "columns (parse_table_line line) =
     (case columns_segment line of
        None \<Rightarrow> [ascii ''*'']
      | Some seg \<Rightarrow> if seg = [] then [ascii ''*''] else split_ws seg)"
    by (simp add: parse_table_line_def columns_segment_def Let_def)
  have f: "formatted_columns (parse_table_line line) =
        [alias_or_name (parse_table_line line) @ ascii ''.*'']"
    if "columns_segment line = None \<or> columns_segment line = Some []"
    using that c by (auto simp: formatted_columns_def ascii_def)
  have g: "generate_sql q = assemble (descriptors q)"
    if "\<forall>t \<in> set (descriptors q). first_violation t = None"
       "\<not> any_missing_join 0 (descriptors q)"
  proof -
    from that(1) have "validate_lines (split (strip q) (ascii ''\<newline>'')) [] = Inr (descriptors q)"
      using validate_lines_pass[of "split (strip q) (ascii ''\<newline>'')" "[]"]
      by (simp add: descriptors_def)
    with that(2) show ?thesis by (simp add: generate_sql_lines)
  qed
  show ?thesis using c f g by (simp add: assemble_eq)
qed

text \<open>
  C6 as stated fails in the direction from the columns to the segment: the line \<open>t : *\<close>
  has a present, non-empty columns segment and its columns are the wildcard alone.
\<close>

theorem parse_table_line_columns_counterexample:
  "\<not> (columns (parse_table_line (ascii ''t : *'')) = [ascii ''*''] \<longleftrightarrow>
      columns_segment (ascii ''t : *'') = None \<or> columns_segment (ascii ''t : *'') = Some [])"
  by (simp add: columns_segment_def eval_defs)

text \<open>An instance of the amended C6: a second line with an empty columns segment.\<close>

theorem parse_table_line_columns_witness:
  "columns_segment (ascii ''b - y :  : a.i = y.i'') = Some [] \<and>
   columns (parse_table_line (ascii ''b - y :  : a.i = y.i'')) = [ascii ''*''] \<and>
   formatted_columns (parse_table_line (ascii ''b - y :  : a.i = y.i'')) = [ascii ''y.*''] \<and>
   generate_sql (ascii ''a : x\<newline>b - y :  : a.i = y.i'') =
     ascii ''SELECT a.x, y.* FROM a\<newline>JOIN b AS y ON a.i = y.i;''"
proof -
  let ?l = "ascii ''b - y :  : a.i = y.i''"
  let ?q = "ascii ''a : x\<newline>b - y :  : a.i = y.i''"
  have s: "columns_segment ?l = Some []" by (simp add: columns_segment_def eval_defs)
  have p: "parse_table_line ?l = \<lparr>name = ascii ''b'', alias = Some (ascii ''y''),
      columns = [ascii ''*''], join_condition = Some (ascii ''a.i = y.i'')\<rparr>"
    by (simp add: eval_defs)
  have d: "descriptors ?q =
    [\<lparr>name = ascii ''a'', alias = None, columns = [ascii ''x''], join_condition = None\<rparr>,
     \<lparr>name = ascii ''b'', alias = Some (ascii ''y''), columns = [ascii ''*''],
       join_condition = Some (ascii ''a.i = y.i'')\<rparr>]"
    by (simp add: descriptors_def eval_defs)
  have h: "(\<forall>t \<in> set (descriptors ?q). first_violation t = None) \<and>
      \<not> any_missing_join 0 (descriptors ?q)"
    unfolding d by (simp add: first_violation_def eval_defs)
  have r: "ascii ''SELECT '' @ join (ascii '', '') (concat (map formatted_columns (descriptors ?q)))
          @ ascii '' '' @ clauses (descriptors ?q) @ ascii '';'' =
       ascii ''SELECT a.x, y.* FROM a\<newline>JOIN b AS y ON a.i = y.i;''"
    unfolding d by (simp add: clauses_def eval_defs)
  have a: "alias_or_name (parse_table_line ?l) @ ascii ''.*'' = ascii ''y.*''"
    unfolding p by (simp add: eval_defs)
  from parse_table_line_columns[of ?l ?q] s h r a show ?thesis by simp
qed

lemma index_None_iff: "index xs x = None \<longleftrightarrow> x \<notin> set xs"
  by (induction xs) auto

lemma index_first:
  "i < length xs \<Longrightarrow> xs ! i = x \<Longrightarrow> \<forall>j<i. xs ! j \<noteq> x \<Longrightarrow> index xs x = Some i"
proof (induction xs arbitrary: i)
  case Nil
  then show ?case by simp
next
  case (Cons y ys)
  show ?case
  proof (cases i)
    case 0
    with Cons.prems show ?thesis by simp
  next
    case (Suc i')
    with Cons.prems have "y \<noteq> x" by auto
    moreover from Cons.prems Suc have "i' < length ys" "ys ! i' = x" by auto
    moreover from Cons.prems Suc have "\<forall>j<i'. ys ! j \<noteq> x" by fastforce
    ultimately show ?thesis using Cons.IH Suc by simp
  qed
qed

text \<open>
  C7, as the code has it. The table-spec segment is split at every single space, empty
  pieces kept. The name is the first piece. Without a piece \<open>-\<close> there is no alias; with
  the first \<open>-\<close> at position \<open>i\<close> the alias is the piece at \<open>i + 1\<close>, which may be
  empty, and there is none when \<open>-\<close> is the last piece.
\<close>

theorem parse_table_line_name_alias:
  "split (table_spec line) (ascii '' '') \<noteq> [] \<and>
   name (parse_table_line line) = split (table_spec line) (ascii '' '') ! 0 \<and>
   (ascii ''-'' \<notin> set (split (table_spec line) (ascii '' '')) \<longrightarrow>
      alias (parse_table_line line) = None) \<and>
   (i < length (split (table_spec line) (ascii '' '')) \<and>
    split (table_spec line) (ascii '' '') ! i = ascii ''-'' \<and>
    (\<forall>j<i. split (table_spec line) (ascii '' '') ! j \<noteq> ascii ''-'') \<longrightarrow>
      alias (parse_table_line line) =
        (if i + 1 < length (split (table_spec line) (ascii '' ''))
         then Some (split (table_spec line) (ascii '' '') ! (i + 1)) else None))"
proof -
  define parts where "parts = split (table_spec line) (ascii '' '')"
  have ne: "parts \<noteq> []" by (simp add: parts_def split_nonempty)
  have n: "name (parse_table_line line) = parts ! 0"
    using ne by (simp add: parse_table_line_def Let_def parts_def table_spec_def hd_conv_nth)
  have a: "alias (parse_table_line line) = parse_alias parts"
    by (simp add: parse_table_line_def Let_def parts_def table_spec_def)
  have a0: "alias (parse_table_line line) = None" if "ascii ''-'' \<notin> set parts"
    using that by (simp add: a parse_alias_def index_None_iff[THEN iffD2])
  have a1: "alias (parse_table_line line) =
        (if i + 1 < length parts then Some (parts ! (i + 1)) else None)"
    if "i < length parts" "parts ! i = ascii ''-''" "\<forall>j<i. parts ! j \<noteq> ascii ''-''"
    using index_first[OF that] by (simp add: a parse_alias_def)
  show ?thesis using ne n a0 a1 unfolding parts_def by blast
qed

text \<open>
  C7 as stated fails: with two spaces after \<open>-\<close> the code takes the empty piece as the
  alias, where the whitespace tokens give \<open>b\<close>.
\<close>

theorem parse_table_line_alias_counterexample:
  "alias (parse_table_line (ascii ''a -  b'')) \<noteq> spec_whitespace_alias (ascii ''a -  b'') \<and>
   alias (parse_table_line (ascii ''a -  b'')) = Some [] \<and>
   spec_whitespace_alias (ascii ''a -  b'') = Some (ascii ''b'')"
  by (simp add: spec_whitespace_alias_def table_spec_def eval_defs)

text \<open>
  An instance of the amended C7: two \<open>-\<close> pieces, a trailing \<open>-\<close>, and no \<open>-\<close>.
\<close>

theorem parse_table_line_name_alias_witness:
  "split (table_spec (ascii ''t - x - y : c'')) (ascii '' '') =
     [ascii ''t'', ascii ''-'', ascii ''x'', ascii ''-'', ascii ''y''] \<and>
   name (parse_table_line (ascii ''t - x - y : c'')) = ascii ''t'' \<and>
   alias (parse_table_line (ascii ''t - x - y : c'')) = Some (ascii ''x'') \<and>
   alias (parse_table_line (ascii ''t - : c'')) = None \<and>
   alias (parse_table_line (ascii ''t : c'')) = None"
proof -
  have s1: "split (table_spec (ascii ''t - x - y : c'')) (ascii '' '') =
     [ascii ''t'', ascii ''-'', ascii ''x'', ascii ''-'', ascii ''y'']"
    by (simp add: table_spec_def eval_defs)
  have s2: "split (table_spec (ascii ''t - : c'')) (ascii '' '') = [ascii ''t'', ascii ''-'']"
    by (simp add: table_spec_def eval_defs)
  have s3: "split (table_spec (ascii ''t : c'')) (ascii '' '') = [ascii ''t'']"
    by (simp add: table_spec_def eval_defs)
  have n: "ascii ''t'' \<noteq> ascii ''-''" by (simp add: ascii_def)
  from parse_table_line_name_alias[of "ascii ''t - x - y : c''" 1]
  have "name (parse_table_line (ascii ''t - x - y : c'')) = ascii ''t'' \<and>
   alias (parse_table_line (ascii ''t - x - y : c'')) = Some (ascii ''x'')"
    unfolding s1 using n by simp
  moreover from parse_table_line_name_alias[of "ascii ''t - : c''" 1]
  have "alias (parse_table_line (ascii ''t - : c'')) = None"
    unfolding s2 using n by simp
  moreover from parse_table_line_name_alias[of "ascii ''t : c''" 0]
  have "alias (parse_table_line (ascii ''t : c'')) = None"
    unfolding s3 using n by simp
  ultimately show ?thesis using s1 by simp
qed

lemma first_violation_join_condition:
  "first_violation (t\<lparr>join_condition := j\<rparr>) = first_violation t"
  by (cases "alias t") (auto simp: first_violation_def)

lemma assemble_first_join_condition:
  "assemble (t\<lparr>join_condition := j\<rparr> # ts) = assemble (t # ts)"
  by (simp add: assemble_eq clauses_def formatted_columns_def alias_or_name_def
      from_clause_of_def)

text \<open>
  C10. Two queries whose lines agree after the first, and whose first lines parse to
  descriptors that differ in the join condition only, have the same result: the join
  condition of the first descriptor is neither rendered nor checked.
\<close>

theorem first_join_condition_ignored:
  "split (strip q) (ascii ''\<newline>'') = l # ls \<and> split (strip q') (ascii ''\<newline>'') = l' # ls \<and>
   parse_table_line l' = (parse_table_line l)\<lparr>join_condition := j\<rparr>
   \<longrightarrow> generate_sql q' = generate_sql q"
proof
  assume h: "split (strip q) (ascii ''\<newline>'') = l # ls \<and>
    split (strip q') (ascii ''\<newline>'') = l' # ls \<and>
    parse_table_line l' = (parse_table_line l)\<lparr>join_condition := j\<rparr>"
  define t where "t = parse_table_line l"
  from h have p': "parse_table_line l' = t\<lparr>join_condition := j\<rparr>" by (simp add: t_def)
  show "generate_sql q' = generate_sql q"
  proof (cases "first_violation t")
    case (Some e)
    with h p' show ?thesis
      by (simp add: generate_sql_lines validate_lines_step first_violation_join_condition t_def
          del: validate_lines.simps)
  next
    case None
    have v: "validate_lines (l # ls) [] =
        (case validate_lines ls [] of Inl e \<Rightarrow> Inl e | Inr ts \<Rightarrow> Inr (t # ts))"
      using None validate_lines_acc[of ls "[t]"]
      by (simp add: validate_lines_step t_def del: validate_lines.simps split: sum.splits)
    have v': "validate_lines (l' # ls) [] =
        (case validate_lines ls [] of Inl e \<Rightarrow> Inl e
         | Inr ts \<Rightarrow> Inr (t\<lparr>join_condition := j\<rparr> # ts))"
      using None validate_lines_acc[of ls "[t\<lparr>join_condition := j\<rparr>]"]
      by (simp add: validate_lines_step p' first_violation_join_condition
          del: validate_lines.simps split: sum.splits)
    show ?thesis
    proof (cases "validate_lines ls []")
      case (Inl e)
      with h show ?thesis by (simp add: generate_sql_lines v v' del: validate_lines.simps)
    next
      case (Inr ts)
      with h show ?thesis
        by (simp add: generate_sql_lines v v' assemble_first_join_condition
            del: validate_lines.simps)
    qed
  qed
qed

text \<open>
  An instance of C10: the same query with and without a join condition on its first
  line.
\<close>

theorem first_join_condition_ignored_witness:
  "generate_sql (ascii ''a - t : x y : t.k = 1\<newline>b : z : t.i = b.i'') =
   generate_sql (ascii ''a - t : x y\<newline>b : z : t.i = b.i'') \<and>
   generate_sql (ascii ''a - t : x y\<newline>b : z : t.i = b.i'') =
     ascii ''SELECT t.x, t.y, b.z FROM a AS t\<newline>JOIN b ON t.i = b.i;''"
proof -
  let ?q = "ascii ''a - t : x y\<newline>b : z : t.i = b.i''"
  let ?q' = "ascii ''a - t : x y : t.k = 1\<newline>b : z : t.i = b.i''"
  have s: "split (strip ?q) (ascii ''\<newline>'') = [ascii ''a - t : x y'', ascii ''b : z : t.i = b.i'']"
    by (simp add: eval_defs)
  have s': "split (strip ?q') (ascii ''\<newline>'') =
      [ascii ''a - t : x y : t.k = 1'', ascii ''b : z : t.i = b.i'']"
    by (simp add: eval_defs)
  have p: "parse_table_line (ascii ''a - t : x y : t.k = 1'') =
      (parse_table_line (ascii ''a - t : x y''))\<lparr>join_condition := Some (ascii ''t.k = 1'')\<rparr>"
    by (simp add: eval_defs)
  have g: "generate_sql ?q = ascii ''SELECT t.x, t.y, b.z FROM a AS t\<newline>JOIN b ON t.i = b.i;''"
    by (simp add: eval_defs)
  from first_join_condition_ignored[of ?q "ascii ''a - t : x y''" "[ascii ''b : z : t.i = b.i'']"
      ?q' "ascii ''a - t : x y : t.k = 1''" "Some (ascii ''t.k = 1'')"] s s' p g
  show ?thesis by simp
qed

end
